theory Spec2Isabelle
  imports Main "HOL-Library.Stream" "HOL-Library.Log_Nat"
begin

section \<open>The session coordinator of server.js\<close>

text \<open>
  server.js keeps two pieces of module-level state, the player registry (behind
  the helpers of utils/players.js) and the single collectible, and registers four
  socket handlers: joinGame, playerStateChange, playerCollideWithCollectible and
  disconnect. Each handler is modelled as a function from the state before the
  event to the messages it emits, the state after it, and the exception it leaves
  uncaught, if any (server.js has no try/catch around any helper call).
\<close>

subsection \<open>Data\<close>

type_synonym conn_id = string

text \<open>
  Modelled from the spec: the player object that the events carry is not
  declared in the sources. server.js itself reads only \<open>player.id\<close> and
  \<open>player.score\<close>; the remaining attributes are the ones the spec's data model
  lists (username, position, orientation or movement state). A score is a
  JSON number with an integer value, that is an integer that an IEEE double
  represents (\<open>js_integer\<close> below); a payload whose score is a fraction, a
  string or no number at all is outside this record. Coordinates are integers;
  server.js compares and stores them and never computes with them.
\<close>

record player =
  p_id :: conn_id
  p_username :: string
  p_x :: int
  p_y :: int
  p_dir :: string
  p_score :: int

text \<open>
  Modelled from the spec: the collectible class (public/Collectible.mjs) is not
  among the sources. server.js constructs it from \<open>x\<close>, \<open>y\<close>, \<open>id\<close> and
  \<open>spriteSrcIndex\<close> (lines 52-58) and reads \<open>value\<close> (line 82).
\<close>

record collectible =
  c_x :: int
  c_y :: int
  c_id :: string
  c_spriteSrcIndex :: int
  c_value :: int

text \<open>\<open>gameConfig.collectibleSprite\<close>: server.js uses the length of its \<open>srcs\<close>.\<close>

record collectibleSprite =
  srcs :: "string list"

text \<open>
  Modelled from the spec: public/utils/generateStartPos.mjs is not among the
  sources, and \<open>nanoid\<close> is a library. The spec has the first pick a position
  at random within the field and the second give a fresh identity token; each
  is taken as the sequence of values its successive calls return, so that a
  property holds for every outcome of the draws.
\<close>

record rng =
  positions :: "(int \<times> int) stream"
  ids :: "string stream"

text \<open>
  Modelled from the spec: the valid spawn field, from which \<open>generateStartPos\<close>
  picks, as the set of the positions that its calls return, the first or a
  later one: a position that no call ever returns is not one the collectible can
  be put at.
\<close>

definition spawn_field :: "rng \<Rightarrow> (int \<times> int) set" where
  "spawn_field r = sset (positions r)"

datatype error = NotFound

type_synonym registry = "player list"

record server_state =
  players :: registry
  collectible :: collectible
  random :: rng

subsection \<open>Numbers\<close>

text \<open>
  Line 82, \<open>player.score += collectible.value\<close>, adds two JavaScript numbers:
  IEEE doubles, the exact sum rounded to 53 significant bits, to the nearest
  double and to the even one of two nearest. On integers this is the exact sum
  as long as its magnitude is below 2 to the 53; 9007199254740991 + 10 is
  9007199254741000. \<open>ulp\<close> is the distance between the doubles around \<open>x\<close>.
  The overflow to Infinity, which needs a collectible value of 2 to the 970 or
  more, is not modelled.
\<close>

definition ulp :: "int \<Rightarrow> int" where
  "ulp x = 2 ^ nat (bitlen \<bar>x\<bar> - 53)"

definition round_double :: "int \<Rightarrow> int" where
  "round_double x =
     (let u = ulp x; q = x div u; r = x mod u
      in if 2 * r < u then q * u
         else if u < 2 * r then (q + 1) * u
         else if even q then q * u
         else (q + 1) * u)"

definition js_add :: "int \<Rightarrow> int \<Rightarrow> int" where
  "js_add a b = round_double (a + b)"

text \<open>The integers that are JavaScript numbers: a finite double has this value.\<close>

definition js_integer :: "int \<Rightarrow> bool" where
  "js_integer n = (n mod ulp n = 0 \<and> \<bar>n\<bar> < 2 ^ 1024)"

subsection \<open>Messages and their delivery scope\<close>

text \<open>
  \<open>socket.emit\<close> reaches the connection of the handler only,
  \<open>socket.broadcast.emit\<close> every connection but that one, and
  \<open>io.sockets.emit\<close> every connection.
\<close>

datatype scope = ToSender conn_id | ToOthers conn_id | ToAll

datatype message =
    CurrentOpponents "player list"
  | Collectible collectible
  | NewOpponent player
  | OpponentStateChange player
  | Scored int
  | OpponentLeave conn_id

type_synonym emission = "scope \<times> message"

fun receives :: "scope \<Rightarrow> conn_id \<Rightarrow> bool" where
  "receives (ToSender s) c = (c = s)"
| "receives (ToOthers s) c = (c \<noteq> s)"
| "receives ToAll c = True"

text \<open>The messages a connection receives out of a list of emissions, in order.\<close>

definition inbox :: "emission list \<Rightarrow> conn_id \<Rightarrow> message list" where
  "inbox out c = map snd (filter (\<lambda>e. receives (fst e) c) out)"

fun is_collectible :: "message \<Rightarrow> bool" where
  "is_collectible (Collectible _) = True"
| "is_collectible _ = False"

fun is_scored :: "message \<Rightarrow> bool" where
  "is_scored (Scored _) = True"
| "is_scored _ = False"

subsection \<open>The player registry\<close>

text \<open>
  utils/players.js (playerJoin, getPlayers, playerLeave, setPlayerState) is not
  among the sources; its four operations follow the spec's registry contract. The
  spec's registry is a mapping from connection id to player record with at most
  one record per id; it is kept here as the list of its records, each stored
  under its own \<open>p_id\<close>. Where the spec has an operation fail with NotFound,
  the operation returns the error, and the handler that called it ends there:
  server.js checks no result and catches no exception.
\<close>

text \<open>Modelled from the spec: the record stored under an id, if there is one.\<close>

definition lookup :: "conn_id \<Rightarrow> registry \<Rightarrow> player option" where
  "lookup i ps = find (\<lambda>q. p_id q = i) ps"

text \<open>Modelled from the spec: \<open>all\<close>, a snapshot of every registered player.\<close>

definition getPlayers :: "registry \<Rightarrow> player list" where
  "getPlayers ps = ps"

text \<open>
  Modelled from the spec: \<open>join\<close> stores the record and returns it; a record
  already stored under the same id is overwritten (last join wins).
\<close>

definition playerJoin :: "player \<Rightarrow> registry \<Rightarrow> player \<times> registry" where
  "playerJoin p ps = (p, filter (\<lambda>q. p_id q \<noteq> p_id p) ps @ [p])"

text \<open>
  Modelled from the spec: \<open>updateState\<close> merges the given position, orientation
  and score into the existing record and fails with NotFound when there is none.
\<close>

definition merge_state :: "player \<Rightarrow> player \<Rightarrow> player" where
  "merge_state old new =
     old\<lparr>p_x := p_x new, p_y := p_y new, p_dir := p_dir new, p_score := p_score new\<rparr>"

definition setPlayerState :: "player \<Rightarrow> registry \<Rightarrow> error + (player \<times> registry)" where
  "setPlayerState p ps =
     (case lookup (p_id p) ps of
        None \<Rightarrow> Inl NotFound
      | Some old \<Rightarrow>
          Inr (merge_state old p,
               map (\<lambda>q. if p_id q = p_id p then merge_state q p else q) ps))"

text \<open>
  Modelled from the spec: \<open>leave\<close> removes and returns the record and fails with
  NotFound when there is none.
\<close>

definition playerLeave :: "conn_id \<Rightarrow> registry \<Rightarrow> error + (player \<times> registry)" where
  "playerLeave i ps =
     (case lookup i ps of
        None \<Rightarrow> Inl NotFound
      | Some old \<Rightarrow> Inr (old, filter (\<lambda>q. p_id q \<noteq> i) ps))"

subsection \<open>The collectible\<close>

text \<open>
  Modelled from the spec: \<open>Collectible.setState\<close> is not among the sources. The
  call of lines 108-113 passes \<open>x\<close>, \<open>y\<close>, \<open>id\<close> and \<open>spriteSrcIndex\<close>; the
  spec's respawn regenerates position, identity and sprite variant, so the setter
  replaces these and leaves \<open>value\<close> as it is.
\<close>

definition setState :: "collectible \<Rightarrow> int \<Rightarrow> int \<Rightarrow> string \<Rightarrow> int \<Rightarrow> collectible" where
  "setState c nx ny nid nidx =
     c\<lparr>c_x := nx, c_y := ny, c_id := nid, c_spriteSrcIndex := nidx\<rparr>"

text \<open>
  Lines 91-99: the first candidate position and the rejection loop. The loop
  draws again while the candidate equals the collectible's position in both
  coordinates. It need not end, so it is a partial function: \<open>None\<close> is the
  loop that runs forever. The result is the accepted position and the draws
  that are left.
\<close>

partial_function (option) newCollectiblePos ::
  "int \<times> int \<Rightarrow> int \<times> int \<Rightarrow> (int \<times> int) stream \<Rightarrow> ((int \<times> int) \<times> (int \<times> int) stream) option"
where
  "newCollectiblePos cur cand draws =
     (if fst cand = fst cur \<and> snd cand = snd cur
      then newCollectiblePos cur (shd draws) (stl draws)
      else Some (cand, draws))"

declare newCollectiblePos.simps [code]

text \<open>
  Lines 103-106: the next sprite variant. The index is set by the server only
  and stays below the length of \<open>srcs\<close>, an array, where \<open>+ 1\<close> is exact.
\<close>

definition newCollectibleSpriteSrcIndex :: "collectibleSprite \<Rightarrow> collectible \<Rightarrow> int" where
  "newCollectibleSpriteSrcIndex cs c =
     (if c_spriteSrcIndex c = int (length (srcs cs)) - 1 then 0
      else c_spriteSrcIndex c + 1)"

text \<open>Lines 90-113: the respawn of the collectible, \<open>None\<close> when the loop never ends.\<close>

definition respawn :: "collectibleSprite \<Rightarrow> collectible \<Rightarrow> rng \<Rightarrow> (collectible \<times> rng) option" where
  "respawn cs c r =
     (case newCollectiblePos (c_x c, c_y c) (shd (positions r)) (stl (positions r)) of
        None \<Rightarrow> None
      | Some (pos, draws) \<Rightarrow>
          Some (setState c (fst pos) (snd pos) (shd (ids r)) (newCollectibleSpriteSrcIndex cs c),
                \<lparr>positions = draws, ids = stl (ids r)\<rparr>))"

subsection \<open>The handlers\<close>

text \<open>
  What a handler leaves behind: the emissions in the order of the calls, the
  state, and the exception that ended the handler, if one did. An exception of
  a helper is not caught anywhere in server.js, so it ends the handler at the
  call; what was emitted before the call stays emitted.
\<close>

record result =
  emitted :: "emission list"
  after :: server_state
  raised :: "error option"

datatype event =
    JoinGame player
  | PlayerStateChange player
  | PlayerCollideWithCollectible player
  | Disconnect

text \<open>Lines 62-72.\<close>

definition on_joinGame :: "conn_id \<Rightarrow> player \<Rightarrow> server_state \<Rightarrow> result" where
  "on_joinGame sid player st =
     (let currentPlayers = getPlayers (players st);
          (currentPlayer, ps) = playerJoin player (players st)
      in \<lparr>emitted = [(ToSender sid, CurrentOpponents currentPlayers),
                     (ToSender sid, Collectible (collectible st)),
                     (ToOthers sid, NewOpponent currentPlayer)],
          after = st\<lparr>players := ps\<rparr>,
          raised = None\<rparr>)"

text \<open>Lines 74-78.\<close>

definition on_playerStateChange :: "conn_id \<Rightarrow> player \<Rightarrow> server_state \<Rightarrow> result" where
  "on_playerStateChange sid player st =
     (case setPlayerState player (players st) of
        Inl e \<Rightarrow> \<lparr>emitted = [], after = st, raised = Some e\<rparr>
      | Inr (updatedPlayer, ps) \<Rightarrow>
          \<lparr>emitted = [(ToOthers sid, OpponentStateChange updatedPlayer)],
           after = st\<lparr>players := ps\<rparr>,
           raised = None\<rparr>)"

text \<open>
  Lines 80-116. The score is added to the event's own player object and sent
  back before the registry is consulted. \<open>None\<close> is the handler that never
  returns, its rejection loop running forever.
\<close>

definition on_playerCollideWithCollectible ::
  "collectibleSprite \<Rightarrow> conn_id \<Rightarrow> player \<Rightarrow> server_state \<Rightarrow> result option" where
  "on_playerCollideWithCollectible cs sid player st =
     (let scoring = player\<lparr>p_score := js_add (p_score player) (c_value (collectible st))\<rparr>;
          scored = (ToSender sid, Scored (p_score scoring))
      in case setPlayerState scoring (players st) of
           Inl e \<Rightarrow> Some \<lparr>emitted = [scored], after = st, raised = Some e\<rparr>
         | Inr (updatedPlayer, ps) \<Rightarrow>
             (case respawn cs (collectible st) (random st) of
                None \<Rightarrow> None
              | Some (c, r) \<Rightarrow>
                  Some \<lparr>emitted = [scored,
                                   (ToOthers sid, OpponentStateChange updatedPlayer),
                                   (ToAll, Collectible c)],
                        after = \<lparr>players = ps, collectible = c, random = r\<rparr>,
                        raised = None\<rparr>))"

text \<open>Lines 119-122.\<close>

definition on_disconnect :: "conn_id \<Rightarrow> server_state \<Rightarrow> result" where
  "on_disconnect sid st =
     (case playerLeave sid (players st) of
        Inl e \<Rightarrow> \<lparr>emitted = [], after = st, raised = Some e\<rparr>
      | Inr (player, ps) \<Rightarrow>
          \<lparr>emitted = [(ToOthers sid, OpponentLeave (p_id player))],
           after = st\<lparr>players := ps\<rparr>,
           raised = None\<rparr>)"

text \<open>Lines 61-123: the dispatch of an event of connection \<open>sid\<close>.\<close>

fun handle :: "collectibleSprite \<Rightarrow> conn_id \<Rightarrow> event \<Rightarrow> server_state \<Rightarrow> result option" where
  "handle cs sid (JoinGame p) st = Some (on_joinGame sid p st)"
| "handle cs sid (PlayerStateChange p) st = Some (on_playerStateChange sid p st)"
| "handle cs sid (PlayerCollideWithCollectible p) st = on_playerCollideWithCollectible cs sid p st"
| "handle cs sid Disconnect st = Some (on_disconnect sid st)"

text \<open>
  A sequence of events, one processed to completion before the next. An uncaught
  exception ends the process, so the events after it are not processed: the run
  ends with the state at the exception and the exception. A handler that never
  returns gives no final state.
\<close>

fun run ::
  "collectibleSprite \<Rightarrow> server_state \<Rightarrow> (conn_id \<times> event) list \<Rightarrow> (server_state \<times> error option) option"
where
  "run cs st [] = Some (st, None)"
| "run cs st ((sid, ev) # es) =
     (case handle cs sid ev st of
        None \<Rightarrow> None
      | Some r \<Rightarrow>
          (case raised r of
             None \<Rightarrow> run cs (after r) es
           | Some e \<Rightarrow> Some (after r, Some e)))"

subsection \<open>Notions the properties are stated with\<close>

text \<open>The score stored in the registry under an id.\<close>

definition stored_score :: "conn_id \<Rightarrow> server_state \<Rightarrow> int option" where
  "stored_score i st = map_option p_score (lookup i (players st))"

fun is_collide :: "event \<Rightarrow> bool" where
  "is_collide (PlayerCollideWithCollectible _) = True"
| "is_collide _ = False"

text \<open>
  In the spec's words, the players that joined before the end of a sequence of
  events and have not disconnected since: some event of the sequence is a
  joinGame for the id, and no later event is the disconnect of the connection of
  that id.
\<close>

fun joins :: "conn_id \<Rightarrow> conn_id \<times> event \<Rightarrow> bool" where
  "joins i (s, JoinGame p) = (p_id p = i)"
| "joins i (s, PlayerStateChange p) = False"
| "joins i (s, PlayerCollideWithCollectible p) = False"
| "joins i (s, Disconnect) = False"

definition joined_and_connected :: "(conn_id \<times> event) list \<Rightarrow> conn_id \<Rightarrow> bool" where
  "joined_and_connected tr i =
     (\<exists>k\<in>{..<length tr}. joins i (tr ! k) \<and> (i, Disconnect) \<notin> set (drop (Suc k) tr))"

text \<open>
  Modelled from the spec: \<open>nanoid\<close> gives a fresh identity token, one that is
  not in use: the token of the collectible is none of the tokens still to come.
\<close>

definition token_unused :: "server_state \<Rightarrow> bool" where
  "token_unused st = (c_id (collectible st) \<notin> sset (ids (random st)))"

text \<open>
  A payload that does not lower a score: its score is a number with an integer
  value, not negative and not below the score stored under its id, if one is
  stored.
\<close>

definition keeps_score :: "player \<Rightarrow> registry \<Rightarrow> bool" where
  "keeps_score p ps =
     (js_integer (p_score p) \<and> 0 \<le> p_score p \<and>
      (case lookup (p_id p) ps of None \<Rightarrow> True | Some old \<Rightarrow> p_score old \<le> p_score p))"

fun honest :: "server_state \<Rightarrow> event \<Rightarrow> bool" where
  "honest st (JoinGame p) = keeps_score p (players st)"
| "honest st (PlayerStateChange p) = keeps_score p (players st)"
| "honest st (PlayerCollideWithCollectible p) = keeps_score p (players st)"
| "honest st Disconnect = True"

text \<open>Every event of a run is honest in the state it is processed in.\<close>

fun honest_trace :: "collectibleSprite \<Rightarrow> server_state \<Rightarrow> (conn_id \<times> event) list \<Rightarrow> bool" where
  "honest_trace cs st [] = True"
| "honest_trace cs st ((sid, ev) # es) =
     (honest st ev \<and>
      (case handle cs sid ev st of
         None \<Rightarrow> True
       | Some r \<Rightarrow> (case raised r of None \<Rightarrow> honest_trace cs (after r) es | Some e \<Rightarrow> True)))"

definition scores_nonneg :: "server_state \<Rightarrow> bool" where
  "scores_nonneg st =
     (0 \<le> c_value (collectible st) \<and> list_all (\<lambda>p. 0 \<le> p_score p) (players st))"

subsection \<open>Concrete inputs\<close>

text \<open>
  The inputs the theorems below are instantiated at: four sprite variants, the
  collectible of the spec's scenario at (5, 5) with value 10 and variant 2, and
  player A at (10, 10) with score 0. \<open>arena\<close> is the server before anyone has
  joined, \<open>lobby\<close> the server after A has joined and \<open>lobby1\<close> the server after
  A's first collision. In \<open>duo\<close> both A and B have joined, and in \<open>rich\<close> the
  score of A is the largest safe integer. In all but \<open>lobby1\<close> the first position
  drawn is the collectible's own and the second is (7, 3).
\<close>

definition sprites4 :: collectibleSprite where
  "sprites4 = \<lparr>srcs = [''a.png'', ''b.png'', ''c.png'', ''d.png'']\<rparr>"

definition alice :: player where
  "alice = \<lparr>p_id = ''A'', p_username = ''alice'', p_x = 10, p_y = 10, p_dir = ''up'', p_score = 0\<rparr>"

definition bob :: player where
  "bob = \<lparr>p_id = ''B'', p_username = ''bob'', p_x = 20, p_y = 30, p_dir = ''left'', p_score = 0\<rparr>"

definition coin :: collectible where
  "coin = \<lparr>c_x = 5, c_y = 5, c_id = ''c0'', c_spriteSrcIndex = 2, c_value = 10\<rparr>"

definition coin' :: collectible where
  "coin' = \<lparr>c_x = 7, c_y = 3, c_id = ''c1'', c_spriteSrcIndex = 3, c_value = 10\<rparr>"

definition draws0 :: rng where
  "draws0 = \<lparr>positions = (5, 5) ## (7, 3) ## sconst (1, 1), ids = ''c1'' ## sconst ''c2''\<rparr>"

definition draws1 :: rng where
  "draws1 = \<lparr>positions = sconst (1, 1), ids = sconst ''c2''\<rparr>"

definition arena :: server_state where
  "arena = \<lparr>players = [], collectible = coin, random = draws0\<rparr>"

definition lobby :: server_state where
  "lobby = \<lparr>players = [alice], collectible = coin, random = draws0\<rparr>"

definition lobby1 :: server_state where
  "lobby1 = \<lparr>players = [alice\<lparr>p_score := 10\<rparr>], collectible = coin', random = draws1\<rparr>"

definition duo :: server_state where
  "duo = \<lparr>players = [alice, bob], collectible = coin, random = draws0\<rparr>"

definition rich :: server_state where
  "rich = \<lparr>players = [alice\<lparr>p_score := 9007199254740991\<rparr>], collectible = coin,
           random = draws0\<rparr>"

section \<open>Basic facts\<close>

subsection \<open>Rounded sums\<close>

lemma ulp_pos: "0 < ulp x"
  by (simp add: ulp_def)

lemma ulp_small: "\<bar>x\<bar> < 2 ^ 53 \<Longrightarrow> ulp x = 1"
proof -
  assume "\<bar>x\<bar> < 2 ^ 53"
  then have "bitlen \<bar>x\<bar> \<le> 53"
    by (simp add: bitlen_le_iff_power)
  then show ?thesis by (simp add: ulp_def)
qed

lemma round_double_exact: "\<bar>x\<bar> < 2 ^ 53 \<Longrightarrow> round_double x = x"
  by (simp add: round_double_def ulp_small)

lemma round_double_floor: "(x div ulp x) * ulp x \<le> round_double x"
  using ulp_pos [of x] by (auto simp: round_double_def Let_def algebra_simps)

lemma round_double_nonneg: "0 \<le> x \<Longrightarrow> 0 \<le> round_double x"
proof -
  assume "0 \<le> x"
  then have "0 \<le> x div ulp x"
    using ulp_pos [of x] by (simp add: pos_imp_zdiv_nonneg_iff)
  then have "0 \<le> (x div ulp x) * ulp x"
    using ulp_pos [of x] by simp
  with round_double_floor [of x] show ?thesis by linarith
qed

lemma floor_multiple:
  fixes u m x :: int
  assumes "0 < u" and "u dvd m" and "m \<le> x"
  shows "m \<le> (x div u) * u"
proof -
  from assms(1,3) have "m div u \<le> x div u" by (rule_tac zdiv_mono1)
  then have "(m div u) * u \<le> (x div u) * u" using assms(1) by simp
  with assms(2) show ?thesis by simp
qed

lemma bitlen_mono: "x \<le> y \<Longrightarrow> bitlen x \<le> bitlen y"
  by (simp add: bitlen_def floorlog_mono)

text \<open>
  Rounding does not take a sum below a non-negative number that is itself a
  double: the largest double that is not above \<open>x\<close> is not below \<open>n\<close>.
\<close>

lemma round_double_ge:
  assumes "js_integer n" and "0 \<le> n" and "n \<le> x"
  shows "n \<le> round_double x"
proof -
  let ?u = "ulp x"
  have upos: "0 < ?u" by (rule ulp_pos)
  have "n \<le> (x div ?u) * ?u"
  proof (cases "bitlen \<bar>n\<bar> = bitlen \<bar>x\<bar>")
    case True
    then have "ulp n = ?u" by (simp add: ulp_def)
    with assms(1) have "?u dvd n" by (auto simp: js_integer_def)
    from floor_multiple [OF upos this assms(3)] show ?thesis .
  next
    case False
    from assms(2,3) have "\<bar>n\<bar> \<le> \<bar>x\<bar>" by simp
    from bitlen_mono [OF this] False have lt: "bitlen \<bar>n\<bar> < bitlen \<bar>x\<bar>" by simp
    show ?thesis
    proof (cases "bitlen \<bar>x\<bar> \<le> 53")
      case True
      then have "?u = 1" by (simp add: ulp_def)
      with assms(3) show ?thesis by simp
    next
      case False
      from assms(2,3) have x0: "0 \<le> x" by simp
      have xpos: "0 < x" using False x0 by (cases "x = 0") auto
      let ?P = "(2::int) ^ nat (bitlen x - 1)"
      have Px: "?P \<le> x" using bitlen_bounds [OF xpos] by simp
      have "nat (bitlen x - 1) = nat (bitlen x - 53) + 52" using False x0 by simp
      then have "?P = ?u * 2 ^ 52" using x0 by (simp add: ulp_def power_add)
      then have "?u dvd ?P" by simp
      from floor_multiple [OF upos this Px] have "?P \<le> (x div ?u) * ?u" .
      moreover have "n < ?P"
      proof (cases "n = 0")
        case True
        then show ?thesis by simp
      next
        case False
        with assms(2) have npos: "0 < n" by simp
        from bitlen_bounds [OF npos] have "n < 2 ^ nat (bitlen n)" by simp
        also have "\<dots> \<le> ?P" using lt assms(2) x0 by (intro power_increasing) auto
        finally show ?thesis .
      qed
      ultimately show ?thesis by linarith
    qed
  qed
  with round_double_floor [of x] show ?thesis by linarith
qed

lemma js_add_ge: "js_integer a \<Longrightarrow> 0 \<le> a \<Longrightarrow> 0 \<le> b \<Longrightarrow> a \<le> js_add a b"
  unfolding js_add_def by (rule round_double_ge) simp_all

lemma js_add_exact: "\<bar>a + b\<bar> < 2 ^ 53 \<Longrightarrow> js_add a b = a + b"
  by (simp add: js_add_def round_double_exact)

lemma js_add_nonneg: "0 \<le> a \<Longrightarrow> 0 \<le> b \<Longrightarrow> 0 \<le> js_add a b"
  by (simp add: js_add_def round_double_nonneg)

lemma js_integer_safe: "\<bar>n\<bar> < 2 ^ 53 \<Longrightarrow> js_integer n"
proof -
  assume a: "\<bar>n\<bar> < 2 ^ 53"
  have "(2::int) ^ 53 \<le> 2 ^ 1024" by (rule power_increasing) simp_all
  with a have "\<bar>n\<bar> < 2 ^ 1024" by linarith
  with a show ?thesis by (simp add: js_integer_def ulp_small)
qed

lemma js_add_at_the_safe_bound: "js_add 9007199254740991 10 = 9007199254741000"
  by code_simp

subsection \<open>The loop, the registry and the running example\<close>

lemma newCollectiblePos_accept:
  "cand \<noteq> cur \<Longrightarrow> newCollectiblePos cur cand d = Some (cand, d)"
  by (subst newCollectiblePos.simps) (auto simp: prod_eq_iff)

lemma newCollectiblePos_reject:
  "newCollectiblePos cur cur d = newCollectiblePos cur (shd d) (stl d)"
  by (subst newCollectiblePos.simps) simp

lemma lookup_map_merge:
  "lookup i (map (\<lambda>q. if p_id q = i then merge_state q p else q) ps) =
     map_option (\<lambda>q. merge_state q p) (lookup i ps)"
  by (induction ps) (auto simp: lookup_def merge_state_def)

lemma lobby_collide:
  "on_playerCollideWithCollectible sprites4 ''A'' alice lobby =
     Some \<lparr>emitted = [(ToSender ''A'', Scored 10),
                      (ToOthers ''A'', OpponentStateChange (alice\<lparr>p_score := 10\<rparr>)),
                      (ToAll, Collectible coin')],
           after = \<lparr>players = [alice\<lparr>p_score := 10\<rparr>], collectible = coin', random = draws1\<rparr>,
           raised = None\<rparr>"
  by (simp add: on_playerCollideWithCollectible_def Let_def setPlayerState_def lookup_def
        merge_state_def respawn_def setState_def newCollectibleSpriteSrcIndex_def
        newCollectiblePos_reject newCollectiblePos_accept js_add_exact
        lobby_def alice_def coin_def coin'_def draws0_def draws1_def sprites4_def)

section \<open>The rejection loop and the respawn\<close>

lemma newCollectiblePos_differs:
  assumes "newCollectiblePos cur cand d = Some res"
  shows "fst res \<noteq> cur"
  by (rule newCollectiblePos.raw_induct
        [where P = "\<lambda>cur cand d res. fst res \<noteq> cur", OF _ assms])
     (auto split: if_splits simp: prod_eq_iff)

lemma newCollectiblePos_Some_draw:
  assumes "newCollectiblePos cur cand d = Some res"
  shows "\<exists>n. (cand ## d) !! n \<noteq> cur"
proof (rule newCollectiblePos.raw_induct
        [where P = "\<lambda>cur cand d res. \<exists>n. (cand ## d) !! n \<noteq> cur", OF _ assms])
  fix rec :: "int \<times> int \<Rightarrow> int \<times> int \<Rightarrow> (int \<times> int) stream \<Rightarrow> ((int \<times> int) \<times> (int \<times> int) stream) option"
  fix cur cand :: "int \<times> int" and d res
  assume 1: "\<And>cur cand d res. rec cur cand d = Some res \<Longrightarrow> \<exists>n. (cand ## d) !! n \<noteq> cur"
    "(if fst cand = fst cur \<and> snd cand = snd cur then rec cur (shd d) (stl d) else Some (cand, d)) = Some res"
  show "\<exists>n. (cand ## d) !! n \<noteq> cur"
  proof (cases "cand = cur")
    case True
    with 1(2) have "rec cur (shd d) (stl d) = Some res" by simp
    from 1(1)[OF this] obtain n where "(shd d ## stl d) !! n \<noteq> cur" by blast
    then have "(cand ## d) !! Suc n \<noteq> cur" by simp
    then show ?thesis by blast
  next
    case False
    then have "(cand ## d) !! 0 \<noteq> cur" by simp
    then show ?thesis by blast
  qed
qed

lemma newCollectiblePos_draw_Some:
  "(cand ## d) !! n \<noteq> cur \<Longrightarrow> \<exists>res. newCollectiblePos cur cand d = Some res"
proof (induction n arbitrary: cand d)
  case 0
  then show ?case by (simp add: newCollectiblePos_accept)
next
  case (Suc n)
  show ?case
  proof (cases "cand = cur")
    case True
    from Suc.prems have "(shd d ## stl d) !! n \<noteq> cur" by simp
    from Suc.IH[OF this] show ?thesis using True by (simp add: newCollectiblePos_reject)
  next
    case False
    then show ?thesis by (simp add: newCollectiblePos_accept)
  qed
qed

lemma respawn_Some_iff:
  "(respawn cs c rg \<noteq> None) = (\<exists>n. positions rg !! n \<noteq> (c_x c, c_y c))"
proof
  assume "respawn cs c rg \<noteq> None"
  then obtain res where "newCollectiblePos (c_x c, c_y c) (shd (positions rg)) (stl (positions rg)) = Some res"
    by (auto simp: respawn_def split: option.splits)
  from newCollectiblePos_Some_draw[OF this] show "\<exists>n. positions rg !! n \<noteq> (c_x c, c_y c)"
    by simp
next
  assume "\<exists>n. positions rg !! n \<noteq> (c_x c, c_y c)"
  then obtain n where "(shd (positions rg) ## stl (positions rg)) !! n \<noteq> (c_x c, c_y c)"
    by auto
  from newCollectiblePos_draw_Some[OF this] show "respawn cs c rg \<noteq> None"
    by (auto simp: respawn_def split: option.splits)
qed

lemma respawn_position:
  assumes "respawn cs c rg = Some (c', rg')"
  shows "c_x c' \<noteq> c_x c \<or> c_y c' \<noteq> c_y c"
proof -
  from assms obtain pos rest where
    loop: "newCollectiblePos (c_x c, c_y c) (shd (positions rg)) (stl (positions rg)) = Some (pos, rest)"
    and c': "c' = setState c (fst pos) (snd pos) (shd (ids rg)) (newCollectibleSpriteSrcIndex cs c)"
    by (auto simp: respawn_def split: option.splits)
  from newCollectiblePos_differs[OF loop] have "pos \<noteq> (c_x c, c_y c)" by simp
  then show ?thesis by (auto simp: c' setState_def prod_eq_iff)
qed

lemma collide_respawned:
  assumes "on_playerCollideWithCollectible cs sid p st = Some r" and "raised r = None"
  shows "respawn cs (collectible st) (random st) = Some (collectible (after r), random (after r))"
  using assms
  by (auto simp: on_playerCollideWithCollectible_def Let_def
           split: sum.splits option.splits prod.splits)

lemma collide_raised:
  assumes "on_playerCollideWithCollectible cs sid p st = Some r" and "raised r = Some e"
  shows "after r = st"
  using assms
  by (auto simp: on_playerCollideWithCollectible_def Let_def
           split: sum.splits option.splits prod.splits)

text \<open>
  Claim C4. Every respawn that a playerCollideWithCollectible event triggers puts
  the collectible at a position that is not its position before the respawn: the
  new position differs from the old one in the x or in the y coordinate. The
  handler respawns exactly when it runs to its end.
\<close>

theorem respawn_moves_collectible:
  assumes "on_playerCollideWithCollectible cs sid p st = Some r" and "raised r = None"
  shows "c_x (collectible (after r)) \<noteq> c_x (collectible st)
       \<or> c_y (collectible (after r)) \<noteq> c_y (collectible st)"
  using respawn_position [OF collide_respawned [OF assms]] .

theorem respawn_moves_collectible_witness:
  "map_option raised (on_playerCollideWithCollectible sprites4 ''A'' alice lobby) = Some None
   \<and> (c_x (collectible lobby), c_y (collectible lobby)) = (5, 5)
   \<and> map_option (\<lambda>r. (c_x (collectible (after r)), c_y (collectible (after r))))
        (on_playerCollideWithCollectible sprites4 ''A'' alice lobby) = Some (7, 3)"
proof -
  have "(c_x (collectible lobby), c_y (collectible lobby)) = (5, 5)"
    by (simp add: lobby_def coin_def)
  with respawn_moves_collectible [OF lobby_collide] show ?thesis
    by (simp add: lobby_collide coin'_def)
qed

lemma field_draw:
  "(\<exists>pos\<in>spawn_field r. pos \<noteq> cur) = (\<exists>n. positions r !! n \<noteq> cur)"
  by (auto simp: spawn_field_def sset_range)

lemma collide_returns:
  assumes "respawn cs (collectible st) (random st) \<noteq> None"
  shows "on_playerCollideWithCollectible cs sid p st \<noteq> None"
  using assms
  by (auto simp: on_playerCollideWithCollectible_def Let_def
           split: sum.splits option.splits prod.splits)

text \<open>
  Claim C5. If the valid spawn field holds a position other than the
  collectible's current one, the rejection loop of the collision handler ends,
  and with it the respawn and the handler: the playerCollideWithCollectible
  event is processed to completion, whatever its payload and the registry.
\<close>

theorem rejection_loop_terminates:
  assumes "\<exists>pos\<in>spawn_field (random st). pos \<noteq> (c_x (collectible st), c_y (collectible st))"
  shows "newCollectiblePos (c_x (collectible st), c_y (collectible st))
           (shd (positions (random st))) (stl (positions (random st))) \<noteq> None
       \<and> respawn cs (collectible st) (random st) \<noteq> None
       \<and> on_playerCollideWithCollectible cs sid p st \<noteq> None"
proof -
  from assms have r: "respawn cs (collectible st) (random st) \<noteq> None"
    unfolding field_draw respawn_Some_iff .
  then have "newCollectiblePos (c_x (collectible st), c_y (collectible st))
           (shd (positions (random st))) (stl (positions (random st))) \<noteq> None"
    by (auto simp: respawn_def split: option.splits)
  with r collide_returns [OF r] show ?thesis by blast
qed

theorem rejection_loop_terminates_witness:
  "(7, 3) \<in> spawn_field (random lobby)
   \<and> (7, 3) \<noteq> (c_x (collectible lobby), c_y (collectible lobby))
   \<and> respawn sprites4 (collectible lobby) (random lobby) \<noteq> None
   \<and> on_playerCollideWithCollectible sprites4 ''A'' alice lobby \<noteq> None"
proof -
  have d: "(7, 3) \<in> spawn_field (random lobby)"
    "(7, 3) \<noteq> (c_x (collectible lobby), c_y (collectible lobby))"
    by (simp_all add: spawn_field_def lobby_def draws0_def coin_def)
  then have "\<exists>pos\<in>spawn_field (random lobby).
               pos \<noteq> (c_x (collectible lobby), c_y (collectible lobby))"
    by blast
  from rejection_loop_terminates [OF this, of sprites4 "''A''" alice] d show ?thesis
    by blast
qed

section \<open>Delivery scopes of the collision handler\<close>

text \<open>
  Claim C9. When a playerCollideWithCollectible event is processed, for a player
  with a record and with a spawn field that holds a position other than the
  collectible's, the handler runs to its end and delivers three messages: the
  scored message to the sending connection and to no other, the
  opponentStateChange message, with the record as the registry now stores it, to
  every connection except the sender, and the collectible message, with the
  respawned collectible, to every connection, the sender included. No connection
  receives anything else.
\<close>

theorem collide_delivery_scope:
  assumes "lookup (p_id p) (players st) = Some old"
    and "\<exists>pos\<in>spawn_field (random st). pos \<noteq> (c_x (collectible st), c_y (collectible st))"
  shows "\<exists>r u. on_playerCollideWithCollectible cs sid p st = Some r \<and> raised r = None
           \<and> u = merge_state old (p\<lparr>p_score := js_add (p_score p) (c_value (collectible st))\<rparr>)
           \<and> lookup (p_id p) (players (after r)) = Some u
           \<and> respawn cs (collectible st) (random st) = Some (collectible (after r), random (after r))
           \<and> inbox (emitted r) sid =
               [Scored (js_add (p_score p) (c_value (collectible st))),
                Collectible (collectible (after r))]
           \<and> (\<forall>c. c \<noteq> sid \<longrightarrow>
                 inbox (emitted r) c = [OpponentStateChange u, Collectible (collectible (after r))])"
proof -
  from assms(2) have "respawn cs (collectible st) (random st) \<noteq> None"
    unfolding field_draw respawn_Some_iff .
  then obtain c rg where resp: "respawn cs (collectible st) (random st) = Some (c, rg)"
    by (cases "respawn cs (collectible st) (random st)") auto
  show ?thesis
    using assms(1) resp
    by (simp add: on_playerCollideWithCollectible_def Let_def setPlayerState_def
          lookup_map_merge inbox_def)
qed

theorem collide_delivery_scope_witness:
  "lookup (p_id alice) (players lobby) = Some alice
   \<and> (7, 3) \<in> spawn_field (random lobby)
   \<and> (7, 3) \<noteq> (c_x (collectible lobby), c_y (collectible lobby))
   \<and> map_option raised (on_playerCollideWithCollectible sprites4 ''A'' alice lobby) = Some None
   \<and> map_option (\<lambda>r. inbox (emitted r) ''A'') (on_playerCollideWithCollectible sprites4 ''A'' alice lobby)
       = Some [Scored 10, Collectible coin']
   \<and> map_option (\<lambda>r. inbox (emitted r) ''B'') (on_playerCollideWithCollectible sprites4 ''A'' alice lobby)
       = Some [OpponentStateChange (alice\<lparr>p_score := 10\<rparr>), Collectible coin']"
proof -
  have a: "lookup (p_id alice) (players lobby) = Some alice"
    by (simp add: lookup_def lobby_def)
  have d: "(7, 3) \<in> spawn_field (random lobby)"
    "(7, 3) \<noteq> (c_x (collectible lobby), c_y (collectible lobby))"
    by (simp_all add: spawn_field_def lobby_def draws0_def coin_def)
  then have ex: "\<exists>pos\<in>spawn_field (random lobby).
               pos \<noteq> (c_x (collectible lobby), c_y (collectible lobby))"
    by blast
  from collide_delivery_scope [OF a ex, of sprites4 "''A''"] a d show ?thesis
    unfolding lobby_collide by (simp add: inbox_def)
qed

section \<open>The sprite index and the value of the collectible\<close>

lemma respawn_value:
  "respawn cs c rg = Some (c', rg') \<Longrightarrow> c_value c' = c_value c"
  by (auto simp: respawn_def setState_def split: option.splits)

lemma respawn_index:
  "respawn cs c rg = Some (c', rg') \<Longrightarrow> c_spriteSrcIndex c' = newCollectibleSpriteSrcIndex cs c"
  by (auto simp: respawn_def setState_def split: option.splits)

lemma handle_collectible:
  assumes "handle cs sid ev st = Some r"
  shows "if is_collide ev \<and> raised r = None
         then respawn cs (collectible st) (random st) = Some (collectible (after r), random (after r))
         else collectible (after r) = collectible st"
proof (cases ev)
  case (PlayerCollideWithCollectible p)
  with assms have h: "on_playerCollideWithCollectible cs sid p st = Some r" by simp
  show ?thesis
  proof (cases "raised r")
    case None
    with collide_respawned[OF h] PlayerCollideWithCollectible show ?thesis by simp
  next
    case (Some e)
    with collide_raised[OF h] PlayerCollideWithCollectible show ?thesis by simp
  qed
next
  case (JoinGame p)
  with assms show ?thesis
    by (auto simp: on_joinGame_def Let_def split: prod.splits)
next
  case (PlayerStateChange p)
  with assms show ?thesis
    by (auto simp: on_playerStateChange_def split: sum.splits prod.splits)
next
  case Disconnect
  with assms show ?thesis
    by (auto simp: on_disconnect_def split: sum.splits prod.splits)
qed

lemma handle_value:
  assumes "handle cs sid ev st = Some r"
  shows "c_value (collectible (after r)) = c_value (collectible st)"
  using handle_collectible[OF assms] by (auto split: if_splits dest: respawn_value)

lemma next_index_mod:
  assumes "0 \<le> c_spriteSrcIndex c" and "c_spriteSrcIndex c < int (length (srcs cs))"
  shows "newCollectibleSpriteSrcIndex cs c = (c_spriteSrcIndex c + 1) mod int (length (srcs cs))"
  using assms by (auto simp: newCollectibleSpriteSrcIndex_def)

lemma lobby_two_collisions:
  "run sprites4 lobby
     [(''A'', PlayerCollideWithCollectible alice),
      (''A'', PlayerCollideWithCollectible (alice\<lparr>p_score := 10\<rparr>))] =
   Some (\<lparr>players = [alice\<lparr>p_score := 20\<rparr>],
          collectible = \<lparr>c_x = 1, c_y = 1, c_id = ''c2'', c_spriteSrcIndex = 0, c_value = 10\<rparr>,
          random = draws1\<rparr>, None)"
  by (simp add: lobby_collide)
     (simp add: on_playerCollideWithCollectible_def Let_def setPlayerState_def lookup_def
        merge_state_def respawn_def setState_def newCollectibleSpriteSrcIndex_def
        newCollectiblePos_accept js_add_exact alice_def coin'_def draws1_def sprites4_def)

text \<open>
  Claim C6. If the sprite index of the collectible is a natural number below the
  number of sprite variants, then after a run with N respawns, one for each
  playerCollideWithCollectible event handled to its end, the index is the initial
  index plus N, modulo the number of variants: a respawn advances the index by
  one and wraps to 0 after the last variant, and no draw of the random sources
  enters it.
\<close>

theorem sprite_index_after_respawns:
  assumes "run cs st tr = Some (st', None)"
    and "0 \<le> c_spriteSrcIndex (collectible st)"
    and "c_spriteSrcIndex (collectible st) < int (length (srcs cs))"
  shows "c_spriteSrcIndex (collectible st') =
           (c_spriteSrcIndex (collectible st) + int (length (filter (\<lambda>e. is_collide (snd e)) tr)))
             mod int (length (srcs cs))"
  using assms
proof (induction tr arbitrary: st)
  case Nil
  then show ?case by simp
next
  case (Cons e es)
  obtain sid ev where e: "e = (sid, ev)" by (cases e)
  from Cons.prems(1) e obtain r where
    h: "handle cs sid ev st = Some r" and ok: "raised r = None"
    and rest: "run cs (after r) es = Some (st', None)"
    by (auto split: option.splits)
  let ?n = "int (length (srcs cs))"
  let ?i = "c_spriteSrcIndex (collectible st)"
  have step: "c_spriteSrcIndex (collectible (after r)) = (if is_collide ev then (?i + 1) mod ?n else ?i)"
    using handle_collectible[OF h] ok next_index_mod[OF Cons.prems(2,3)]
    by (auto dest: respawn_index split: if_splits)
  have "0 < ?n" using Cons.prems(2,3) by linarith
  then have bounds: "0 \<le> c_spriteSrcIndex (collectible (after r))"
    "c_spriteSrcIndex (collectible (after r)) < ?n"
    using step Cons.prems(2,3) by (auto split: if_splits)
  let ?k = "int (length (filter (\<lambda>e. is_collide (snd e)) es))"
  have IH: "c_spriteSrcIndex (collectible st') =
              (c_spriteSrcIndex (collectible (after r)) + ?k) mod ?n"
    by (rule Cons.IH[OF rest bounds])
  show ?case
  proof (cases "is_collide ev")
    case True
    have "((?i + 1) mod ?n + ?k) mod ?n = (?i + (1 + ?k)) mod ?n"
      by (simp add: mod_simps algebra_simps)
    with True IH step e show ?thesis by simp
  next
    case False
    with IH step e show ?thesis by simp
  qed
qed

theorem sprite_index_after_respawns_witness:
  "0 \<le> c_spriteSrcIndex (collectible lobby)
   \<and> c_spriteSrcIndex (collectible lobby) < int (length (srcs sprites4))
   \<and> map_option (\<lambda>s. c_spriteSrcIndex (collectible (fst s)))
        (run sprites4 lobby
           [(''A'', PlayerCollideWithCollectible alice),
            (''A'', PlayerCollideWithCollectible (alice\<lparr>p_score := 10\<rparr>))])
       = Some ((2 + 2) mod 4)"
proof -
  have b: "0 \<le> c_spriteSrcIndex (collectible lobby)"
    "c_spriteSrcIndex (collectible lobby) < int (length (srcs sprites4))"
    "c_spriteSrcIndex (collectible lobby) = 2" "int (length (srcs sprites4)) = 4"
    by (simp_all add: lobby_def coin_def sprites4_def)
  from sprite_index_after_respawns [OF lobby_two_collisions b(1,2)] b show ?thesis
    unfolding lobby_two_collisions by simp
qed

text \<open>
  Claim C10. A respawn leaves the collectible's value as it is, the setter
  replacing the position, the identity and the sprite index only; so after every
  sequence of events, however it ends, the collectible has the value it had at
  the start.
\<close>

theorem collectible_value_constant:
  "run cs st tr = Some (st', e) \<Longrightarrow> c_value (collectible st') = c_value (collectible st)"
proof (induction tr arbitrary: st)
  case Nil
  then show ?case by simp
next
  case (Cons a es)
  obtain sid ev where a: "a = (sid, ev)" by (cases a)
  from Cons.prems a obtain r where h: "handle cs sid ev st = Some r"
    by (auto split: option.splits)
  show ?case
  proof (cases "raised r")
    case None
    with Cons.prems a h have "run cs (after r) es = Some (st', e)" by simp
    from Cons.IH[OF this] handle_value[OF h] show ?thesis by simp
  next
    case (Some x)
    with Cons.prems a h have "st' = after r" by simp
    with handle_value[OF h] show ?thesis by simp
  qed
qed

theorem collectible_value_constant_witness:
  "c_value (collectible lobby) = 10
   \<and> map_option (\<lambda>s. c_value (collectible (fst s)))
        (run sprites4 lobby
           [(''A'', PlayerCollideWithCollectible alice),
            (''A'', PlayerCollideWithCollectible (alice\<lparr>p_score := 10\<rparr>))])
       = Some 10"
proof -
  have "c_value (collectible lobby) = 10"
    by (simp add: lobby_def coin_def)
  with collectible_value_constant [OF lobby_two_collisions] show ?thesis
    unfolding lobby_two_collisions by simp
qed

section \<open>The registry along a run\<close>

lemma lookup_join:
  "lookup i (filter (\<lambda>q. p_id q \<noteq> p_id p) ps @ [p]) = (if i = p_id p then Some p else lookup i ps)"
  by (induction ps) (auto simp: lookup_def)

lemma lookup_leave:
  "lookup i (filter (\<lambda>q. p_id q \<noteq> j) ps) = (if i = j then None else lookup i ps)"
  by (induction ps) (auto simp: lookup_def)

lemma lookup_merge_other:
  "i \<noteq> j \<Longrightarrow> lookup i (map (\<lambda>q. if p_id q = j then merge_state q p else q) ps) = lookup i ps"
  by (induction ps) (auto simp: lookup_def merge_state_def)

lemma map_id_merge:
  "map p_id (map (\<lambda>q. if p_id q = j then merge_state q p else q) ps) = map p_id ps"
  by (induction ps) (auto simp: merge_state_def)

lemma setPlayerState_ids:
  "setPlayerState p ps = Inr (u, ps') \<Longrightarrow> map p_id ps' = map p_id ps"
  using map_id_merge [of "p_id p" p ps]
  by (auto simp: setPlayerState_def split: option.splits simp del: map_map)

lemma map_id_remove:
  "map p_id (filter (\<lambda>q. p_id q \<noteq> j) ps) = filter (\<lambda>i. i \<noteq> j) (map p_id ps)"
  by (induction ps) auto

text \<open>What each event does to the ids of the registry when its handler runs to its end.\<close>

lemma handle_ids:
  assumes "handle cs sid ev st = Some r" and "raised r = None"
  shows "map p_id (players (after r)) =
           (case ev of
              JoinGame p \<Rightarrow> filter (\<lambda>i. i \<noteq> p_id p) (map p_id (players st)) @ [p_id p]
            | Disconnect \<Rightarrow> filter (\<lambda>i. i \<noteq> sid) (map p_id (players st))
            | _ \<Rightarrow> map p_id (players st))"
proof (cases ev)
  case (JoinGame p)
  with assms show ?thesis
    by (auto simp: on_joinGame_def Let_def playerJoin_def map_id_remove)
next
  case (PlayerStateChange p)
  with assms show ?thesis
    by (auto simp: on_playerStateChange_def dest: setPlayerState_ids
             split: sum.splits prod.splits)
next
  case (PlayerCollideWithCollectible p)
  with assms show ?thesis
    by (auto simp: on_playerCollideWithCollectible_def Let_def dest: setPlayerState_ids
             split: sum.splits option.splits prod.splits)
next
  case Disconnect
  with assms show ?thesis
    by (auto simp: on_disconnect_def playerLeave_def map_id_remove
             split: sum.splits option.splits)
qed

lemma run_snoc:
  "run cs st (tr @ [(sid, ev)]) =
     (case run cs st tr of
        None \<Rightarrow> None
      | Some (st1, Some e) \<Rightarrow> Some (st1, Some e)
      | Some (st1, None) \<Rightarrow>
          (case handle cs sid ev st1 of
             None \<Rightarrow> None
           | Some r \<Rightarrow> Some (after r, raised r)))"
proof (induction tr arbitrary: st)
  case Nil
  show ?case by (auto split: option.splits)
next
  case (Cons a tr)
  obtain s e where a: "a = (s, e)" by (cases a)
  show ?case unfolding a
    by (auto simp: Cons.IH split: option.splits)
qed

lemma joined_and_connected_iff:
  "joined_and_connected tr i =
     (\<exists>k<length tr. joins i (tr ! k) \<and> (i, Disconnect) \<notin> set (drop (Suc k) tr))"
  by (auto simp: joined_and_connected_def)

lemma joined_and_connected_snoc:
  "joined_and_connected (tr @ [e]) i =
     (joins i e \<or> (joined_and_connected tr i \<and> e \<noteq> (i, Disconnect)))"
proof -
  have "joined_and_connected (tr @ [e]) i =
          ((\<exists>k<length tr. joins i ((tr @ [e]) ! k) \<and> (i, Disconnect) \<notin> set (drop (Suc k) (tr @ [e])))
           \<or> (joins i ((tr @ [e]) ! length tr) \<and> (i, Disconnect) \<notin> set (drop (Suc (length tr)) (tr @ [e]))))"
    unfolding joined_and_connected_iff by (auto simp: less_Suc_eq)
  also have "\<dots> = ((\<exists>k<length tr. joins i (tr ! k) \<and> (i, Disconnect) \<notin> set (drop (Suc k) tr) \<and> e \<noteq> (i, Disconnect))
           \<or> joins i e)"
    by (auto simp: nth_append)
  also have "\<dots> = (joins i e \<or> (joined_and_connected tr i \<and> e \<noteq> (i, Disconnect)))"
    unfolding joined_and_connected_iff by auto
  finally show ?thesis .
qed

lemma run_registry:
  assumes "players st0 = []" and "run cs st0 tr = Some (st, None)"
  shows "(i \<in> p_id ` set (players st)) = joined_and_connected tr i \<and> distinct (map p_id (players st))"
  using assms(2)
proof (induction tr arbitrary: st rule: rev_induct)
  case Nil
  with assms(1) show ?case by (simp add: joined_and_connected_def)
next
  case (snoc a tr)
  obtain sid ev where a: "a = (sid, ev)" by (cases a)
  from snoc.prems a obtain st1 r where
    run1: "run cs st0 tr = Some (st1, None)" and h: "handle cs sid ev st1 = Some r"
    and ok: "raised r = None" and st: "st = after r"
    by (auto simp: run_snoc split: option.splits prod.splits)
  note IH = snoc.IH[OF run1]
  note ids = handle_ids[OF h ok]
  have "(i \<in> set (map p_id (players st))) = joined_and_connected (tr @ [a]) i"
    unfolding joined_and_connected_snoc st ids a
    using IH by (cases ev) auto
  moreover have "distinct (map p_id (players st))"
    unfolding st ids using IH by (cases ev) auto
  ultimately show ?case by simp
qed

lemma arena_join: "run sprites4 arena [(''A'', JoinGame alice)] = Some (lobby, None)"
  by (simp add: on_joinGame_def Let_def playerJoin_def getPlayers_def arena_def lobby_def)

lemma lobby_collide_after:
  "map_option after (on_playerCollideWithCollectible sprites4 ''A'' alice lobby) = Some lobby1"
  by (simp add: lobby_collide lobby1_def)

section \<open>joinGame\<close>

text \<open>
  Claim C3, amended. For every joinGame event processed after a run that started
  with an empty registry, the joining connection receives exactly the
  currentOpponents roster followed by the current collectible, and every other
  connection receives exactly one newOpponent message with the new player's record
  and nothing else. The roster is the registry as it stands before the join: it
  has one record for each id that joined during the run and whose connection has
  not disconnected since, no two of them under the same id. It holds a record
  under the joining player's id exactly when that id is among these.
\<close>

theorem joinGame_roster:
  assumes "players st0 = []" and "run cs st0 tr = Some (st, None)"
  shows "inbox (emitted (on_joinGame sid p st)) sid =
           [CurrentOpponents (players st), Collectible (collectible st)]
       \<and> (\<forall>c. c \<noteq> sid \<longrightarrow> inbox (emitted (on_joinGame sid p st)) c = [NewOpponent p])
       \<and> (\<forall>i. (i \<in> p_id ` set (players st)) = joined_and_connected tr i)
       \<and> distinct (map p_id (players st))"
proof -
  have "inbox (emitted (on_joinGame sid p st)) sid =
           [CurrentOpponents (players st), Collectible (collectible st)]"
    by (simp add: on_joinGame_def Let_def playerJoin_def getPlayers_def inbox_def)
  moreover have "inbox (emitted (on_joinGame sid p st)) c = [NewOpponent p]" if "c \<noteq> sid" for c
    using that by (simp add: on_joinGame_def Let_def playerJoin_def getPlayers_def inbox_def)
  ultimately show ?thesis
    using run_registry [OF assms] by blast
qed

theorem joinGame_roster_witness:
  "players arena = []
   \<and> run sprites4 arena [(''A'', JoinGame alice)] = Some (lobby, None)
   \<and> inbox (emitted (on_joinGame ''B'' bob lobby)) ''B'' = [CurrentOpponents [alice], Collectible coin]
   \<and> inbox (emitted (on_joinGame ''B'' bob lobby)) ''A'' = [NewOpponent bob]
   \<and> joined_and_connected [(''A'', JoinGame alice)] ''A''
   \<and> \<not> joined_and_connected [(''A'', JoinGame alice)] ''B''"
proof -
  have e: "players arena = []" by (simp add: arena_def)
  have l: "players lobby = [alice]" "collectible lobby = coin" "p_id alice = ''A''"
    by (simp_all add: lobby_def alice_def)
  have j: "joined_and_connected [(''A'', JoinGame alice)] ''A''"
    "\<not> joined_and_connected [(''A'', JoinGame alice)] ''B''"
    by (simp_all add: joined_and_connected_def alice_def)
  from joinGame_roster [OF e arena_join, of "''B''" bob] e j show ?thesis
    unfolding arena_join by (simp add: l)
qed

text \<open>
  Claim C3 as stated fails where it excludes the joining player from the
  roster: after A has joined, a second joinGame for A is answered with a roster
  that holds A's record.
\<close>

theorem joinGame_roster_repeated_join:
  "run sprites4 arena [(''A'', JoinGame alice)] = Some (lobby, None)
   \<and> inbox (emitted (on_joinGame ''A'' alice lobby)) ''A'' =
       [CurrentOpponents [alice], Collectible coin]"
  unfolding arena_join
  by (simp add: on_joinGame_def Let_def playerJoin_def getPlayers_def inbox_def lobby_def)

section \<open>Scoring\<close>

lemma lobby1_stale:
  "map_option (\<lambda>r. stored_score ''A'' (after r))
     (on_playerCollideWithCollectible sprites4 ''A'' alice lobby1) = Some (Some 10)"
  by (simp add: on_playerCollideWithCollectible_def Let_def setPlayerState_def lookup_def
        merge_state_def respawn_def setState_def newCollectibleSpriteSrcIndex_def
        newCollectiblePos_accept js_add_exact stored_score_def lobby1_def alice_def coin'_def
        draws1_def sprites4_def)

lemma rich_collide:
  "map_option (\<lambda>r. stored_score ''A'' (after r))
     (on_playerCollideWithCollectible sprites4 ''A'' (alice\<lparr>p_score := 9007199254740991\<rparr>) rich)
   = Some (Some 9007199254741000)"
  by (simp add: on_playerCollideWithCollectible_def Let_def setPlayerState_def lookup_def
        merge_state_def respawn_def setState_def newCollectibleSpriteSrcIndex_def
        newCollectiblePos_reject newCollectiblePos_accept js_add_at_the_safe_bound
        stored_score_def rich_def alice_def coin_def draws0_def sprites4_def)

lemma duo_collide:
  "map_option (\<lambda>r. (stored_score ''A'' (after r), stored_score ''B'' (after r)))
     (on_playerCollideWithCollectible sprites4 ''A'' bob duo) = Some (Some 0, Some 10)"
  by (simp add: on_playerCollideWithCollectible_def Let_def setPlayerState_def lookup_def
        merge_state_def respawn_def setState_def newCollectibleSpriteSrcIndex_def
        newCollectiblePos_reject newCollectiblePos_accept js_add_exact
        stored_score_def duo_def alice_def bob_def coin_def draws0_def sprites4_def)

text \<open>
  Claim C1, amended. Take a playerCollideWithCollectible event whose payload
  carries an id that has a record in the registry (its connection's id, for a
  client that reports itself), a spawn field that holds a position other than
  the collectible's, and a collectible whose token is none of the tokens still
  to come from \<open>nanoid\<close>. The handler runs to its end. The score stored for
  that id is then the JavaScript sum of the score of the event's payload and
  the collectible's value at that moment: their exact sum while its magnitude is
  below 2 to the 53, and so an increase by exactly the collectible's value when
  the payload also carries the stored score. Exactly one collectible message is
  emitted, to all connections, and its identity token is distinct from the token
  before the event.
\<close>

theorem collide_stores_payload_score:
  assumes "lookup (p_id p) (players st) = Some old"
    and "\<exists>pos\<in>spawn_field (random st). pos \<noteq> (c_x (collectible st), c_y (collectible st))"
    and "token_unused st"
  shows "\<exists>r. on_playerCollideWithCollectible cs sid p st = Some r \<and> raised r = None
           \<and> stored_score (p_id p) st = Some (p_score old)
           \<and> stored_score (p_id p) (after r) =
               Some (js_add (p_score p) (c_value (collectible st)))
           \<and> (\<bar>p_score p + c_value (collectible st)\<bar> < 2 ^ 53 \<longrightarrow>
                 stored_score (p_id p) (after r) = Some (p_score p + c_value (collectible st)))
           \<and> (\<bar>p_score p + c_value (collectible st)\<bar> < 2 ^ 53 \<and> p_score p = p_score old \<longrightarrow>
                 stored_score (p_id p) (after r) = Some (p_score old + c_value (collectible st)))
           \<and> filter (\<lambda>e. is_collectible (snd e)) (emitted r) =
               [(ToAll, Collectible (collectible (after r)))]
           \<and> c_id (collectible (after r)) = shd (ids (random st))
           \<and> c_id (collectible (after r)) \<noteq> c_id (collectible st)"
proof -
  from assms(2) have "respawn cs (collectible st) (random st) \<noteq> None"
    unfolding field_draw respawn_Some_iff .
  then obtain c rg where resp: "respawn cs (collectible st) (random st) = Some (c, rg)"
    by (cases "respawn cs (collectible st) (random st)") auto
  then have cid: "c_id c = shd (ids (random st))"
    by (auto simp: respawn_def setState_def split: option.splits)
  have "shd (ids (random st)) \<in> sset (ids (random st))"
    by (rule shd_sset)
  with assms(3) have new: "shd (ids (random st)) \<noteq> c_id (collectible st)"
    by (auto simp: token_unused_def)
  show ?thesis
    using assms(1) resp cid new
    by (auto simp: on_playerCollideWithCollectible_def Let_def setPlayerState_def
          stored_score_def lookup_map_merge merge_state_def js_add_exact)
qed

theorem collide_stores_payload_score_witness:
  "lookup (p_id alice) (players lobby) = Some alice
   \<and> (7, 3) \<in> spawn_field (random lobby)
   \<and> (7, 3) \<noteq> (c_x (collectible lobby), c_y (collectible lobby))
   \<and> token_unused lobby
   \<and> \<bar>p_score alice + c_value (collectible lobby)\<bar> < 2 ^ 53
   \<and> stored_score ''A'' lobby = Some 0
   \<and> map_option (\<lambda>r. stored_score ''A'' (after r))
        (on_playerCollideWithCollectible sprites4 ''A'' alice lobby) = Some (Some 10)
   \<and> map_option (\<lambda>r. filter (\<lambda>e. is_collectible (snd e)) (emitted r))
        (on_playerCollideWithCollectible sprites4 ''A'' alice lobby) = Some [(ToAll, Collectible coin')]
   \<and> c_id (collectible lobby) = ''c0'' \<and> c_id coin' = ''c1''"
proof -
  have a: "lookup (p_id alice) (players lobby) = Some alice"
    by (simp add: lookup_def lobby_def)
  have d: "(7, 3) \<in> spawn_field (random lobby)"
    "(7, 3) \<noteq> (c_x (collectible lobby), c_y (collectible lobby))"
    by (simp_all add: spawn_field_def lobby_def draws0_def coin_def)
  then have ex: "\<exists>pos\<in>spawn_field (random lobby).
               pos \<noteq> (c_x (collectible lobby), c_y (collectible lobby))"
    by blast
  have t: "token_unused lobby"
    by (simp add: token_unused_def lobby_def draws0_def coin_def)
  have s: "\<bar>p_score alice + c_value (collectible lobby)\<bar> < 2 ^ 53"
    "stored_score ''A'' lobby = Some 0" "c_id (collectible lobby) = ''c0''" "c_id coin' = ''c1''"
    by (simp_all add: stored_score_def lookup_def lobby_def alice_def coin_def coin'_def)
  have "stored_score ''A'' \<lparr>players = [alice\<lparr>p_score := 10\<rparr>], collectible = coin', random = draws1\<rparr> = Some 10"
    by (simp add: stored_score_def lookup_def alice_def)
  then show ?thesis
    using collide_stores_payload_score [OF a ex t, of sprites4 "''A''"] a d t s
    unfolding lobby_collide by simp
qed

text \<open>
  Claim C1 as stated fails in three ways. The sum starts from the payload's
  score: A's first collision takes \<open>lobby\<close> to \<open>lobby1\<close>, where 10 is stored for
  A, and a second collision event with the same payload, score 0, leaves 10
  stored although the collectible's value is 10. The sum is a sum of doubles: in
  \<open>rich\<close>, where the payload carries the stored score 9007199254740991, the
  stored score grows by 9. And the record is the one of the payload's id: in
  \<open>duo\<close>, connection A sending B's payload leaves A's score at 0 and stores 10
  for B.
\<close>

theorem collide_stale_payload_adds_nothing:
  "map_option after (on_playerCollideWithCollectible sprites4 ''A'' alice lobby) = Some lobby1
   \<and> lookup (p_id alice) (players lobby1) = Some (alice\<lparr>p_score := 10\<rparr>)
   \<and> stored_score ''A'' lobby1 = Some 10
   \<and> c_value (collectible lobby1) = 10
   \<and> map_option (\<lambda>r. stored_score ''A'' (after r))
        (on_playerCollideWithCollectible sprites4 ''A'' alice lobby1) = Some (Some 10)
   \<and> stored_score ''A'' rich = Some 9007199254740991
   \<and> c_value (collectible rich) = 10
   \<and> map_option (\<lambda>r. stored_score ''A'' (after r))
        (on_playerCollideWithCollectible sprites4 ''A'' (alice\<lparr>p_score := 9007199254740991\<rparr>) rich)
       = Some (Some 9007199254741000)
   \<and> stored_score ''A'' duo = Some 0
   \<and> p_id bob = ''B''
   \<and> map_option (\<lambda>r. (stored_score ''A'' (after r), stored_score ''B'' (after r)))
        (on_playerCollideWithCollectible sprites4 ''A'' bob duo) = Some (Some 0, Some 10)"
  unfolding lobby_collide_after lobby1_stale rich_collide duo_collide
  by (simp add: stored_score_def lookup_def lobby1_def rich_def duo_def alice_def bob_def
        coin_def coin'_def)

section \<open>Events of a connection without a record\<close>

text \<open>
  Claim C2 says that a playerStateChange or playerCollideWithCollectible event of
  a connection without a record is dropped: the registry stays as it is and no
  message goes out. The handlers of lines 74-78 and 80-116 hand the payload to
  \<open>setPlayerState\<close> without a check. B has no record in \<open>lobby\<close>: its
  playerStateChange ends in the uncaught NotFound, and so does its
  playerCollideWithCollectible, after the scored message has been sent to B; in
  both runs the event of A that follows is never processed.
\<close>

theorem stale_event_is_not_dropped:
  "lookup ''B'' (players lobby) = None
   \<and> p_id bob = ''B''
   \<and> raised (on_playerStateChange ''B'' bob lobby) = Some NotFound
   \<and> run sprites4 lobby [(''B'', PlayerStateChange bob), (''A'', PlayerStateChange alice)]
       = Some (lobby, Some NotFound)
   \<and> map_option raised (on_playerCollideWithCollectible sprites4 ''B'' bob lobby)
       = Some (Some NotFound)
   \<and> map_option (\<lambda>r. inbox (emitted r) ''B'')
        (on_playerCollideWithCollectible sprites4 ''B'' bob lobby) = Some [Scored 10]
   \<and> run sprites4 lobby
        [(''B'', PlayerCollideWithCollectible bob), (''A'', PlayerStateChange alice)]
       = Some (lobby, Some NotFound)"
  by (simp add: on_playerStateChange_def on_playerCollideWithCollectible_def Let_def
        setPlayerState_def inbox_def js_add_exact lookup_def lobby_def alice_def bob_def
        coin_def)

section \<open>disconnect\<close>

text \<open>
  Claim C8 says that a disconnect for an id without a record is dropped and
  never fatal. The handler of lines 119-122 uses what \<open>playerLeave\<close> returns
  without a check: B has no record in \<open>lobby\<close>, its disconnect ends in the
  uncaught NotFound, and the event that follows is never processed.
\<close>

theorem disconnect_without_record_raises:
  "lookup ''B'' (players lobby) = None
   \<and> raised (on_disconnect ''B'' lobby) = Some NotFound
   \<and> emitted (on_disconnect ''B'' lobby) = []
   \<and> run sprites4 lobby [(''B'', Disconnect), (''A'', PlayerStateChange alice)] = Some (lobby, Some NotFound)"
  by (simp add: on_disconnect_def playerLeave_def lookup_def lobby_def alice_def)

section \<open>Stored scores\<close>

lemma lookup_merge:
  "lookup i (map (\<lambda>q. if p_id q = j then merge_state q p else q) ps) =
     (if i = j then map_option (\<lambda>q. merge_state q p) (lookup i ps) else lookup i ps)"
  by (simp add: lookup_map_merge lookup_merge_other)

lemma score_merge: "p_score (merge_state q p) = p_score p"
  by (simp add: merge_state_def)

lemma handle_scores:
  assumes "scores_nonneg st" and "honest st ev" and "handle cs sid ev st = Some r"
  shows "scores_nonneg (after r)
       \<and> (\<forall>i s. stored_score i st = Some s \<longrightarrow>
             (case stored_score i (after r) of None \<Rightarrow> True | Some s' \<Rightarrow> s \<le> s'))"
proof -
  from handle_value[OF assms(3)] assms(1)
  have v: "0 \<le> c_value (collectible (after r))" by (simp add: scores_nonneg_def)
  show ?thesis
  proof (cases ev)
    case (JoinGame p)
    with assms v show ?thesis
      by (auto simp: on_joinGame_def Let_def playerJoin_def scores_nonneg_def keeps_score_def
            stored_score_def lookup_join list_all_iff split: option.splits if_splits)
  next
    case (PlayerStateChange p)
    with assms v show ?thesis
      by (auto simp: on_playerStateChange_def setPlayerState_def scores_nonneg_def keeps_score_def
            stored_score_def lookup_merge score_merge list_all_iff
            split: option.splits if_splits)
  next
    case (PlayerCollideWithCollectible p)
    let ?s = "js_add (p_score p) (c_value (collectible st))"
    from assms(1,2) PlayerCollideWithCollectible
    have "js_integer (p_score p)" "0 \<le> p_score p" "0 \<le> c_value (collectible st)"
      by (simp_all add: keeps_score_def scores_nonneg_def)
    then have "p_score p \<le> ?s" "0 \<le> ?s"
      by (simp_all add: js_add_ge js_add_nonneg)
    with PlayerCollideWithCollectible assms v show ?thesis
      by (auto simp: on_playerCollideWithCollectible_def Let_def setPlayerState_def
            scores_nonneg_def keeps_score_def stored_score_def lookup_merge
            score_merge list_all_iff
            split: option.splits prod.splits if_splits sum.splits)
  next
    case Disconnect
    with assms v show ?thesis
      by (auto simp: on_disconnect_def playerLeave_def scores_nonneg_def
            stored_score_def lookup_leave list_all_iff split: option.splits if_splits)
  qed
qed

lemma honest_trace_snoc:
  "run cs st0 tr = Some (st, None) \<Longrightarrow>
     honest_trace cs st0 (tr @ [(sid, ev)]) = (honest_trace cs st0 tr \<and> honest st ev)"
proof (induction tr arbitrary: st0)
  case Nil
  then show ?case by (auto split: option.splits)
next
  case (Cons a tr)
  obtain s e where a: "a = (s, e)" by (cases a)
  from Cons.prems a obtain r where h: "handle cs s e st0 = Some r" and ok: "raised r = None"
    and rest: "run cs (after r) tr = Some (st, None)"
    by (auto split: option.splits)
  from Cons.IH[OF rest] show ?case
    by (simp add: a h ok)
qed

lemma run_scores_nonneg:
  "scores_nonneg st0 \<Longrightarrow> honest_trace cs st0 tr \<Longrightarrow> run cs st0 tr = Some (st, e)
     \<Longrightarrow> scores_nonneg st"
proof (induction tr arbitrary: st0)
  case Nil
  then show ?case by simp
next
  case (Cons a tr)
  obtain s ev where a: "a = (s, ev)" by (cases a)
  from Cons.prems(3) a obtain r where h: "handle cs s ev st0 = Some r"
    by (auto split: option.splits)
  from Cons.prems(2) a have hon: "honest st0 ev" by simp
  from handle_scores[OF Cons.prems(1) hon h] have nn: "scores_nonneg (after r)" by blast
  show ?case
  proof (cases "raised r")
    case None
    with Cons.prems(2,3) a h have "honest_trace cs (after r) tr" "run cs (after r) tr = Some (st, e)"
      by simp_all
    from Cons.IH[OF nn this] show ?thesis .
  next
    case (Some x)
    with Cons.prems(3) a h have "st = after r" by simp
    with nn show ?thesis by simp
  qed
qed

text \<open>
  Claim C7, amended. Take a run from a state whose stored scores and collectible
  value are not negative, and let every event of the run and the event after it
  carry a payload whose score is a number with an integer value, not negative and
  not below the score stored under its id. Then every stored score is a
  non-negative integer before and after that event, and the event lowers no
  stored score, also where the sum of line 82 is rounded.
\<close>

theorem honest_scores_nonneg_monotone:
  assumes "scores_nonneg st0"
    and "honest_trace cs st0 (tr @ [(sid, ev)])"
    and "run cs st0 tr = Some (st, None)"
    and "handle cs sid ev st = Some r"
  shows "scores_nonneg st \<and> scores_nonneg (after r)
       \<and> (\<forall>i s. stored_score i st = Some s \<longrightarrow>
             (case stored_score i (after r) of None \<Rightarrow> True | Some s' \<Rightarrow> s \<le> s'))"
proof -
  from assms(2) have hon: "honest_trace cs st0 tr" "honest st ev"
    unfolding honest_trace_snoc[OF assms(3)] by simp_all
  have nn: "scores_nonneg st"
    by (rule run_scores_nonneg[OF assms(1) hon(1) assms(3)])
  from handle_scores[OF nn hon(2) assms(4)] nn show ?thesis by blast
qed

theorem honest_scores_nonneg_monotone_witness:
  "scores_nonneg arena
   \<and> honest_trace sprites4 arena ([(''A'', JoinGame alice)] @ [(''A'', PlayerCollideWithCollectible alice)])
   \<and> run sprites4 arena [(''A'', JoinGame alice)] = Some (lobby, None)
   \<and> map_option after (handle sprites4 ''A'' (PlayerCollideWithCollectible alice) lobby) = Some lobby1
   \<and> scores_nonneg lobby1
   \<and> stored_score ''A'' lobby = Some 0 \<and> stored_score ''A'' lobby1 = Some 10"
proof -
  have a: "scores_nonneg arena"
    by (simp add: scores_nonneg_def arena_def coin_def)
  have b: "honest_trace sprites4 arena
             ([(''A'', JoinGame alice)] @ [(''A'', PlayerCollideWithCollectible alice)])"
    unfolding honest_trace_snoc[OF arena_join]
    by (simp add: keeps_score_def js_integer_safe lookup_def arena_def lobby_def alice_def
          split: option.splits)
  have c: "handle sprites4 ''A'' (PlayerCollideWithCollectible alice) lobby =
             Some \<lparr>emitted = [(ToSender ''A'', Scored 10),
                      (ToOthers ''A'', OpponentStateChange (alice\<lparr>p_score := 10\<rparr>)),
                      (ToAll, Collectible coin')],
                   after = lobby1, raised = None\<rparr>"
    by (simp add: lobby_collide lobby1_def)
  have d: "stored_score ''A'' lobby = Some 0" "stored_score ''A'' lobby1 = Some 10"
    by (simp_all add: stored_score_def lookup_def lobby_def lobby1_def alice_def)
  from honest_scores_nonneg_monotone [OF a b arena_join c] a b c d show ?thesis
    unfolding arena_join by simp
qed

text \<open>
  Claim C7 as stated fails for payloads the server does not check: with 10
  stored for A in \<open>lobby1\<close>, a playerStateChange whose payload still has score 0
  stores 0, and one with score -5 stores -5.
\<close>

theorem stored_score_can_drop:
  "map_option after (on_playerCollideWithCollectible sprites4 ''A'' alice lobby) = Some lobby1
   \<and> stored_score ''A'' lobby1 = Some 10
   \<and> stored_score ''A'' (after (on_playerStateChange ''A'' alice lobby1)) = Some 0
   \<and> stored_score ''A'' (after (on_playerStateChange ''A'' (alice\<lparr>p_score := - 5\<rparr>) lobby1))
       = Some (- 5)"
  unfolding lobby_collide_after
  by (simp add: on_playerStateChange_def setPlayerState_def stored_score_def lookup_def
        merge_state_def lobby1_def alice_def)

end
